theory Spec2Isabelle
  imports Complex_Main "HOL-Library.Word" "HOL-Library.Multiset" "HOL-Library.AList"
begin

section \<open>The Lilith agent: task queue, processor and tiered memory store\<close>

text \<open>
  A shallow embedding of \<^verbatim>\<open>src/lilith-on-vae/agent.go\<close> (package \<^verbatim>\<open>lilith\<close>).
  Conventions:
  \<^item> a Go \<^verbatim>\<open>int\<close> is a 64-bit word read signed (\<open>sint\<close>); \<open>+\<close> wraps as in Go;
  \<^item> a \<^verbatim>\<open>time.Time\<close> is an integer count of nanoseconds since the Unix epoch, a
    \<^verbatim>\<open>time.Duration\<close> an integer count of nanoseconds; \<^verbatim>\<open>time.Now()\<close> is an explicit
    argument \<open>now\<close> (one reading per modelled call; \<open>executeTask_at\<close> keeps the three
    readings of \<^verbatim>\<open>executeTask\<close> apart);
  \<^item> a Go map is an association list with the operations of \<open>AList\<close>; the order of the list
    is the order in which a \<^verbatim>\<open>range\<close> loop visits the map, which Go leaves unspecified;
  \<^item> a mutex-protected method is a function from the state before to the state after;
  \<^item> logging is omitted: it has no effect on the data.
\<close>

type_synonym go_int = "64 word"
type_synonym time = int
type_synonym duration = int

definition Second :: duration where
  "Second = 1000000000"

text \<open>The zero \<^verbatim>\<open>time.Time\<close> is January 1 of year 1, 00:00 UTC.\<close>

definition zeroTime :: time where
  "zeroTime = - 62135596800 * Second"

definition IsZero :: "time \<Rightarrow> bool" where
  "IsZero t = (t = zeroTime)"

definition After :: "time \<Rightarrow> time \<Rightarrow> bool" where
  "After t u = (t > u)"

definition Before :: "time \<Rightarrow> time \<Rightarrow> bool" where
  "Before t u = (t < u)"

text \<open>
  A \<^verbatim>\<open>time.Duration\<close> is an \<^verbatim>\<open>int64\<close>. \<^verbatim>\<open>Time.Sub\<close> returns the largest or the least
  duration when the difference of the two times does not fit.
\<close>

definition maxDuration :: duration where
  "maxDuration = 9223372036854775807"

definition minDuration :: duration where
  "minDuration = - 9223372036854775808"

definition Sub :: "time \<Rightarrow> time \<Rightarrow> duration" where
  "Sub t u =
     (if t - u > maxDuration then maxDuration
      else if t - u < minDuration then minDuration
      else t - u)"

text \<open>\<^verbatim>\<open>time.Until(t)\<close> is \<^verbatim>\<open>t.Sub(Now())\<close>, \<^verbatim>\<open>time.Since(t)\<close> is \<^verbatim>\<open>Now().Sub(t)\<close>.\<close>

definition Until :: "time \<Rightarrow> time \<Rightarrow> duration" where
  "Until now t = Sub t now"

definition Since :: "time \<Rightarrow> time \<Rightarrow> duration" where
  "Since now t = Sub now t"

subsection \<open>Formatting \<^verbatim>\<open>%d\<close>\<close>

definition digit_char :: "nat \<Rightarrow> char" where
  "digit_char d = ''0123456789'' ! d"

function show_nat :: "nat \<Rightarrow> string" where
  "show_nat n = (if n < 10 then [digit_char n] else show_nat (n div 10) @ [digit_char (n mod 10)])"
  by pat_completeness auto
termination
  by (relation "measure id") auto

declare show_nat.simps [simp del]

definition show_int :: "int \<Rightarrow> string" where
  "show_int i = (if i < 0 then CHR ''-'' # show_nat (nat (- i)) else show_nat (nat i))"

subsection \<open>Errors\<close>

datatype error =
    ErrAgentAlreadyRunning
  | ErrAgentNotRunning
  | ErrUnknownTaskType string
  | TaskExpired string
  | ContextCanceled
  | DeadlineExceeded
  | ErrMemoryNotFound
  | ErrMemoryExpired
  | ErrInvalidMemoryType
  | HandlerError string

subsection \<open>Tasks and the queue order\<close>

record 'd Task =
  ID :: string
  Type :: string
  Priority :: go_int
  Data :: 'd
  CreatedAt :: time
  StartedAt :: "time option"
  Deadline :: "time option"
  Attempts :: go_int

text \<open>The comparison closure of \<^verbatim>\<open>sortTasks\<close>: higher priority first, then earlier creation.\<close>

definition task_less :: "'d Task \<Rightarrow> 'd Task \<Rightarrow> bool" where
  "task_less a b =
     (if Priority a \<noteq> Priority b then sint (Priority a) > sint (Priority b)
      else Before (CreatedAt a) (CreatedAt b))"

text \<open>
  The insertion sort of Go's \<^verbatim>\<open>sort\<close> package:
  \<^verbatim>\<open>for i := a+1; i < b; i++ { for j := i; j > a && less(j, j-1); j-- { swap(j, j-1) } }\<close>.
  \<open>sift\<close> is the inner loop; it works on the sorted prefix held in reverse (its last
  element first) and moves the new element leftwards while it is less than its predecessor.
  \<^verbatim>\<open>sort.SliceStable\<close> sorts blocks of 20 elements with this loop and merges them stably;
  \<^verbatim>\<open>sort.Slice\<close> uses this loop for slices of at most 12 elements. For a comparison that is
  a strict weak order, every stable sort returns the same list as this one.
\<close>

fun sift :: "('a \<Rightarrow> 'a \<Rightarrow> bool) \<Rightarrow> 'a \<Rightarrow> 'a list \<Rightarrow> 'a list" where
  "sift lt x [] = [x]"
| "sift lt x (y # ys) = (if lt x y then y # sift lt x ys else x # y # ys)"

definition insertionSort :: "('a \<Rightarrow> 'a \<Rightarrow> bool) \<Rightarrow> 'a list \<Rightarrow> 'a list" where
  "insertionSort lt xs = rev (foldl (\<lambda>acc x. sift lt x acc) [] xs)"

definition sortTasks :: "'d Task list \<Rightarrow> 'd Task list" where
  "sortTasks ts = insertionSort task_less ts"

subsection \<open>Contexts\<close>

text \<open>
  A \<^verbatim>\<open>context.Context\<close> is what the code observes of it: \<^verbatim>\<open>ctx.Err()\<close> (non-nil exactly
  when \<^verbatim>\<open>ctx.Done()\<close> is closed) and its deadline, if it has one.
\<close>

record Context =
  ctx_err :: "error option"
  ctx_deadline :: "time option"

text \<open>
  \<^verbatim>\<open>context.WithTimeout(parent, d)\<close> is \<^verbatim>\<open>WithDeadline(parent, now + d)\<close>: an earlier deadline
  of the parent is kept, and a deadline that has already passed cancels the child at once.
\<close>

definition WithTimeout :: "time \<Rightarrow> Context \<Rightarrow> duration \<Rightarrow> Context" where
  "WithTimeout now parent d =
     (case ctx_deadline parent of
        Some pd \<Rightarrow> if Before pd (now + d) then parent
                   else \<lparr>ctx_err = (if ctx_err parent \<noteq> None then ctx_err parent
                                     else if d \<le> 0 then Some DeadlineExceeded else None),
                         ctx_deadline = Some (now + d)\<rparr>
      | None \<Rightarrow> \<lparr>ctx_err = (if ctx_err parent \<noteq> None then ctx_err parent
                               else if d \<le> 0 then Some DeadlineExceeded else None),
                   ctx_deadline = Some (now + d)\<rparr>)"

subsection \<open>The Processor\<close>

type_synonym ('d, 's) TaskHandler = "Context \<Rightarrow> 's \<Rightarrow> 'd Task \<Rightarrow> error option \<times> 's"

text \<open>
  The semaphore \<^verbatim>\<open>chan struct{}\<close> is its capacity and the number of elements it holds.
\<close>

record ('d, 's) Processor =
  tasks :: "'d Task list"
  handlers :: "string \<rightharpoonup> ('d, 's) TaskHandler"
  sem_len :: nat
  sem_cap :: nat

text \<open>
  \<^verbatim>\<open>NewProcessor\<close>: \<^verbatim>\<open>make(chan struct{}, n)\<close> panics for a negative \<open>n\<close> (\<open>None\<close>).
\<close>

definition NewProcessor :: "go_int \<Rightarrow> ('d, 's) Processor option" where
  "NewProcessor MaxConcurrentTasks =
     (if sint MaxConcurrentTasks < 0 then None
      else Some \<lparr>tasks = [], handlers = Map.empty, sem_len = 0,
                 sem_cap = nat (sint MaxConcurrentTasks)\<rparr>)"

definition DefaultTaskTimeout :: duration where
  "DefaultTaskTimeout = 30 * Second"

definition UnixNano :: "time \<Rightarrow> int" where
  "UnixNano t = t"

text \<open>The two defaulting steps of \<^verbatim>\<open>AddTask\<close> on its (by-value) argument.\<close>

definition fill_task :: "time \<Rightarrow> 'd Task \<Rightarrow> 'd Task" where
  "fill_task now task =
     (let t1 = (if ID task = [] then task\<lparr>ID := ''task-'' @ show_int (UnixNano now)\<rparr> else task);
          t2 = (if IsZero (CreatedAt t1) then t1\<lparr>CreatedAt := now\<rparr> else t1)
      in t2)"

text \<open>\<^verbatim>\<open>Processor.AddTask\<close>: the returned error is always \<^verbatim>\<open>nil\<close> (\<open>None\<close>).\<close>

definition AddTask ::
  "time \<Rightarrow> 'd Task \<Rightarrow> ('d, 's) Processor \<Rightarrow> error option \<times> ('d, 's) Processor" where
  "AddTask now task p = (None, p\<lparr>tasks := sortTasks (tasks p @ [fill_task now task])\<rparr>)"

definition RegisterHandler ::
  "string \<Rightarrow> ('d, 's) TaskHandler \<Rightarrow> ('d, 's) Processor \<Rightarrow> ('d, 's) Processor" where
  "RegisterHandler taskType handler p = p\<lparr>handlers := (handlers p)(taskType \<mapsto> handler)\<rparr>"

definition getTaskTimeout :: "time \<Rightarrow> 'd Task \<Rightarrow> duration" where
  "getTaskTimeout now task =
     (case Deadline task of Some d \<Rightarrow> Until now d | None \<Rightarrow> DefaultTaskTimeout)"

text \<open>
  What a call does besides returning: taking and giving back a semaphore slot, and invoking a
  handler (with the context and the task it is given).
\<close>

datatype 'd event = Acquire | Release | Invoke Context "'d Task"

text \<open>
  \<^verbatim>\<open>executeTask\<close> reads the clock three times before it calls the handler: for
  \<^verbatim>\<open>startTime\<close> (\<open>started\<close>), in \<^verbatim>\<open>time.Until\<close> inside \<^verbatim>\<open>getTaskTimeout\<close> (\<open>read\<close>),
  and in \<^verbatim>\<open>context.WithTimeout\<close> (\<open>called\<close>).
\<close>

definition executeTask_at ::
  "time \<Rightarrow> time \<Rightarrow> time \<Rightarrow> Context \<Rightarrow> 's \<Rightarrow> 'd Task \<Rightarrow> ('d, 's) Processor \<Rightarrow>
   error option \<times> 's \<times> 'd event list" where
  "executeTask_at started read called ctx st task p =
     (case handlers p (Type task) of
        None \<Rightarrow> (Some (ErrUnknownTaskType (Type task)), st, [])
      | Some handler \<Rightarrow>
          let task' = task\<lparr>StartedAt := Some started, Attempts := Attempts task + 1\<rparr>;
              taskCtx = WithTimeout called ctx (getTaskTimeout read task');
              (err, st') = handler taskCtx st task'
          in (err, st', [Invoke taskCtx task']))"

text \<open>\<^verbatim>\<open>executeTask\<close> with its three readings taken as one instant.\<close>

definition executeTask ::
  "time \<Rightarrow> Context \<Rightarrow> 's \<Rightarrow> 'd Task \<Rightarrow> ('d, 's) Processor \<Rightarrow> error option \<times> 's \<times> 'd event list" where
  "executeTask now ctx st task p = executeTask_at now now now ctx st task p"

text \<open>
  A \<^verbatim>\<open>select\<close> with several ready cases takes one of them at random: \<open>pick\<close> is the case
  taken then. With no ready case the call waits: \<open>Blocked\<close>.
\<close>

datatype select_case = FirstCase | SecondCase

datatype outcome = Returned "error option" | Blocked

definition Process ::
  "time \<Rightarrow> select_case \<Rightarrow> Context \<Rightarrow> 's \<Rightarrow> ('d, 's) Processor \<Rightarrow>
   outcome \<times> ('d, 's) Processor \<times> 's \<times> 'd event list" where
  "Process now pick ctx st p =
     (case tasks p of
        [] \<Rightarrow> (Returned None, p, st, [])
      | task # rest \<Rightarrow>
          let p' = p\<lparr>tasks := rest\<rparr> in
          if (case Deadline task of Some d \<Rightarrow> After now d | None \<Rightarrow> False)
          then (Returned (Some (TaskExpired (ID task))), p', st, [])
          else if sem_len p' < sem_cap p' \<and> (ctx_err ctx = None \<or> pick = FirstCase)
          then (let (err, st', evs) = executeTask now ctx st task p'
                in (Returned err, p', st', [Acquire] @ evs @ [Release]))
          else if ctx_err ctx \<noteq> None
          then (Returned (ctx_err ctx), p', st, [])
          else (Blocked, p', st, []))"

text \<open>
  The states a Processor can be in: it starts with an empty queue, and only \<^verbatim>\<open>AddTask\<close>,
  \<^verbatim>\<open>RegisterHandler\<close> and \<^verbatim>\<open>Process\<close> write it.
\<close>

inductive reachable :: "('d, 's) Processor \<Rightarrow> bool" where
  r_new: "NewProcessor n = Some p \<Longrightarrow> reachable p"
| r_add: "reachable p \<Longrightarrow> reachable (snd (AddTask now task p))"
| r_reg: "reachable p \<Longrightarrow> reachable (RegisterHandler ty h p)"
| r_process: "reachable p \<Longrightarrow> reachable (fst (snd (Process now pick ctx st p)))"

subsection \<open>Memory items and stores\<close>

text \<open>
  The fields \<^verbatim>\<open>CreatedAt\<close> and \<^verbatim>\<open>Priority\<close> of \<^verbatim>\<open>MemoryItem\<close> are written
  \<open>ItemCreatedAt\<close> and \<open>ItemPriority\<close>: the names are taken by the fields of \<open>Task\<close>.
\<close>

record 'v MemoryItem =
  Value :: 'v
  ItemCreatedAt :: time
  ExpiresAt :: "time option"
  AccessCount :: go_int
  LastAccess :: time
  ItemPriority :: go_int

record 'v MemoryStore =
  data :: "(string \<times> 'v MemoryItem) list"
  maxSize :: go_int
  persistent :: bool

definition NewMemoryStore :: "go_int \<Rightarrow> bool \<Rightarrow> 'v MemoryStore" where
  "NewMemoryStore maxSize' persistent' = \<lparr>data = [], maxSize = maxSize', persistent = persistent'\<rparr>"

text \<open>\<^verbatim>\<open>len(m.data) >= m.maxSize\<close>\<close>

definition at_capacity :: "(string \<times> 'v MemoryItem) list \<Rightarrow> go_int \<Rightarrow> bool" where
  "at_capacity d cap = (int (length d) \<ge> sint cap)"

text \<open>\<^verbatim>\<open>item.ExpiresAt != nil && now.After(*item.ExpiresAt)\<close>\<close>

definition is_expired :: "time \<Rightarrow> 'v MemoryItem \<Rightarrow> bool" where
  "is_expired now item = (case ExpiresAt item of None \<Rightarrow> False | Some e \<Rightarrow> After now e)"

subsection \<open>The retention score\<close>

text \<open>
  A \<^verbatim>\<open>float64\<close> is a finite value, an infinity or NaN. Finite values are exact rationals:
  rounding is left out, the special values of IEEE 754 are kept. Dividing two finite
  values by \<^verbatim>\<open>/\<close> never panics in Go: \<open>x / 0\<close> is an infinity with the sign of \<open>x\<close>, and
  \<open>0 / 0\<close> is NaN. Every comparison with NaN is false.
\<close>

datatype float64 = Finite rat | PosInf | NegInf | NaN

definition float_div :: "rat \<Rightarrow> rat \<Rightarrow> float64" where
  "float_div x y =
     (if y = 0 then (if x = 0 then NaN else if x > 0 then PosInf else NegInf)
      else Finite (x / y))"

fun float_less :: "float64 \<Rightarrow> float64 \<Rightarrow> bool" where
  "float_less (Finite a) (Finite b) = (a < b)"
| "float_less (Finite a) PosInf = True"
| "float_less NegInf (Finite b) = True"
| "float_less NegInf PosInf = True"
| "float_less _ _ = False"

text \<open>\<^verbatim>\<open>Duration.Seconds()\<close>\<close>

definition Seconds :: "duration \<Rightarrow> rat" where
  "Seconds d = of_int d / of_int Second"

text \<open>
  \<^verbatim>\<open>float64(item.Priority) * float64(item.AccessCount) / time.Since(item.LastAccess).Seconds()\<close>
\<close>

definition score :: "time \<Rightarrow> 'v MemoryItem \<Rightarrow> float64" where
  "score now item =
     float_div (of_int (sint (ItemPriority item)) * of_int (sint (AccessCount item)))
               (Seconds (Since now (LastAccess item)))"

subsection \<open>MemoryStore operations\<close>

text \<open>
  The last loop of \<^verbatim>\<open>cleanup\<close>:
  \<^verbatim>\<open>for i := 0; i < len(items) && len(m.data) >= m.maxSize; i++ { delete(m.data, items[i].key) }\<close>
\<close>

fun evict :: "go_int \<Rightarrow> string list \<Rightarrow> (string \<times> 'v MemoryItem) list \<Rightarrow> (string \<times> 'v MemoryItem) list" where
  "evict cap [] d = d"
| "evict cap (k # ks) d = (if at_capacity d cap then evict cap ks (AList.delete k d) else d)"

text \<open>
  \<^verbatim>\<open>cleanup\<close>. The first loop deletes the expired items. The second block lists the
  remaining keys with their scores in the order of the map's iteration, sorts the list by
  \<^verbatim>\<open>sort.Slice\<close> with \<^verbatim>\<open>items[i].score < items[j].score\<close>, and evicts along it.
\<close>

definition scored_items :: "time \<Rightarrow> (string \<times> 'v MemoryItem) list \<Rightarrow> (string \<times> float64) list" where
  "scored_items now d = map (\<lambda>(key, item). (key, score now item)) d"

definition sort_by_score :: "(string \<times> float64) list \<Rightarrow> (string \<times> float64) list" where
  "sort_by_score items = insertionSort (\<lambda>a b. float_less (snd a) (snd b)) items"

definition cleanup :: "time \<Rightarrow> 'v MemoryStore \<Rightarrow> 'v MemoryStore" where
  "cleanup now m =
     (let d1 = filter (\<lambda>(key, item). \<not> is_expired now item) (data m) in
      if at_capacity d1 (maxSize m)
      then m\<lparr>data := evict (maxSize m) (map fst (sort_by_score (scored_items now d1))) d1\<rparr>
      else m\<lparr>data := d1\<rparr>)"

definition Set :: "time \<Rightarrow> string \<Rightarrow> 'v MemoryItem \<Rightarrow> 'v MemoryStore \<Rightarrow> error option \<times> 'v MemoryStore" where
  "Set now key item m =
     (let m1 = (if at_capacity (data m) (maxSize m) then cleanup now m else m)
      in (None, m1\<lparr>data := AList.update key item (data m1)\<rparr>))"

definition Get :: "time \<Rightarrow> string \<Rightarrow> 'v MemoryStore \<Rightarrow> (error + 'v) \<times> 'v MemoryStore" where
  "Get now key m =
     (case map_of (data m) key of
        None \<Rightarrow> (Inl ErrMemoryNotFound, m)
      | Some item \<Rightarrow>
          if is_expired now item
          then (Inl ErrMemoryExpired, m\<lparr>data := AList.delete key (data m)\<rparr>)
          else (let item' = item\<lparr>AccessCount := AccessCount item + 1, LastAccess := now\<rparr>
                in (Inr (Value item'), m\<lparr>data := AList.update key item' (data m)\<rparr>)))"

definition Delete :: "string \<Rightarrow> 'v MemoryStore \<Rightarrow> error option \<times> 'v MemoryStore" where
  "Delete key m =
     (case map_of (data m) key of
        None \<Rightarrow> (Some ErrMemoryNotFound, m)
      | Some _ \<Rightarrow> (None, m\<lparr>data := AList.delete key (data m)\<rparr>))"

subsection \<open>State\<close>

datatype Status = StatusIdle | StatusWorking | StatusError | StatusStopped



record 'v State =
  Status :: Status
  LastError :: "error option"
  LastUpdated :: time
  ShortTerm :: "'v MemoryStore"
  LongTerm :: "'v MemoryStore"
  Volatile :: "'v MemoryStore"
  TasksProcessed :: "64 word"
  LastActivity :: time

definition NewState :: "time \<Rightarrow> go_int \<Rightarrow> go_int \<Rightarrow> 'v State" where
  "NewState now MaxShortTermMemory MaxLongTermMemory =
     \<lparr>Status = StatusIdle, LastError = None, LastUpdated = now,
      ShortTerm = NewMemoryStore MaxShortTermMemory False,
      LongTerm = NewMemoryStore MaxLongTermMemory True,
      Volatile = NewMemoryStore 1000 False,
      TasksProcessed = 0, LastActivity = zeroTime\<rparr>"



definition UpdateStatus :: "time \<Rightarrow> Status \<Rightarrow> 'v State \<Rightarrow> 'v State" where
  "UpdateStatus now status s = s\<lparr>Status := status, LastUpdated := now, LastActivity := now\<rparr>"

subsection \<open>Concurrent calls of Process\<close>

text \<open>
  Several goroutines may be inside \<^verbatim>\<open>Process\<close> at once. The queue is popped under the
  mutex, so each call pops atomically; after that a call is at one of three places: waiting
  at the \<^verbatim>\<open>select\<close>, inside \<^verbatim>\<open>executeTask\<close> with a slot taken (the deferred receive still
  to come), or returned. A send on a buffered channel goes through exactly when the channel
  holds fewer elements than its capacity; the deferred \<^verbatim>\<open><-p.semaphore\<close> takes one out.
  The steps are interleaved in any order.
\<close>

datatype 'd call = AtSelect "'d Task" | InHandler "'d Task" | Finished

record ('d, 's) system =
  proc :: "('d, 's) Processor"
  calls :: "'d call list"

datatype 'd action =
    Submit time "'d Task"
  | Enter time
  | TakeSlot nat
  | GiveUp nat
  | Leave nat

fun sys_step :: "'d action \<Rightarrow> ('d, 's) system \<Rightarrow> ('d, 's) system option" where
  "sys_step (Submit now task) s = Some (s\<lparr>proc := snd (AddTask now task (proc s))\<rparr>)"
| "sys_step (Enter now) s =
     (case tasks (proc s) of
        [] \<Rightarrow> Some s
      | task # rest \<Rightarrow>
          if (case Deadline task of Some d \<Rightarrow> After now d | None \<Rightarrow> False)
          then Some (s\<lparr>proc := (proc s)\<lparr>tasks := rest\<rparr>\<rparr>)
          else Some (s\<lparr>proc := (proc s)\<lparr>tasks := rest\<rparr>, calls := calls s @ [AtSelect task]\<rparr>))"
| "sys_step (TakeSlot i) s =
     (if i < length (calls s) \<and> sem_len (proc s) < sem_cap (proc s)
      then (case calls s ! i of
              AtSelect task \<Rightarrow>
                Some (s\<lparr>proc := (proc s)\<lparr>sem_len := sem_len (proc s) + 1\<rparr>,
                        calls := (calls s)[i := InHandler task]\<rparr>)
            | _ \<Rightarrow> None)
      else None)"
| "sys_step (GiveUp i) s =
     (if i < length (calls s)
      then (case calls s ! i of
              AtSelect task \<Rightarrow> Some (s\<lparr>calls := (calls s)[i := Finished]\<rparr>)
            | _ \<Rightarrow> None)
      else None)"
| "sys_step (Leave i) s =
     (if i < length (calls s)
      then (case calls s ! i of
              InHandler task \<Rightarrow>
                Some (s\<lparr>proc := (proc s)\<lparr>sem_len := sem_len (proc s) - 1\<rparr>,
                        calls := (calls s)[i := Finished]\<rparr>)
            | _ \<Rightarrow> None)
      else None)"

fun sys_run :: "'d action list \<Rightarrow> ('d, 's) system \<Rightarrow> ('d, 's) system option" where
  "sys_run [] s = Some s"
| "sys_run (a # as) s = (case sys_step a s of None \<Rightarrow> None | Some s' \<Rightarrow> sys_run as s')"

fun is_executing :: "'d call \<Rightarrow> bool" where
  "is_executing (InHandler task) = True"
| "is_executing _ = False"

definition executing :: "('d, 's) system \<Rightarrow> nat" where
  "executing s = length (filter is_executing (calls s))"

subsection \<open>The Agent\<close>

text \<open>
  The fields of \<^verbatim>\<open>Agent\<close> that its methods read or write, and the number of goroutines of
  \<^verbatim>\<open>run\<close> and of \<^verbatim>\<open>memoryCleanup\<close> that have been started and have not returned.
  \<^verbatim>\<open>a.cancel()\<close> closes \<^verbatim>\<open>a.ctx.Done()\<close>: \<open>ctx_err\<close> becomes \<open>ContextCanceled\<close>.
\<close>

record ('d, 'v) Agent =
  agent_ctx :: Context
  processor :: "('d, 'v State) Processor"
  state :: "'v State"
  isRunning :: bool
  startTime :: time
  run_loops :: nat
  cleanup_loops :: nat

definition handleHealthCheck :: "('d, 'v State) TaskHandler" where
  "handleHealthCheck ctx st task = (None, st)"

definition handleReset :: "('d, 'v State) TaskHandler" where
  "handleReset ctx st task = (None, st)"

definition registerDefaultHandlers :: "('d, 'v State) Processor \<Rightarrow> ('d, 'v State) Processor" where
  "registerDefaultHandlers p =
     RegisterHandler ''system.reset'' handleReset
       (RegisterHandler ''system.health'' handleHealthCheck p)"

definition Start :: "time \<Rightarrow> ('d, 'v) Agent \<Rightarrow> error option \<times> ('d, 'v) Agent" where
  "Start now a =
     (if isRunning a then (Some ErrAgentAlreadyRunning, a)
      else (None, a\<lparr>isRunning := True, startTime := now,
                     state := UpdateStatus now StatusWorking (state a),
                     run_loops := run_loops a + 1,
                     cleanup_loops := cleanup_loops a + 1\<rparr>))"

definition Stop :: "time \<Rightarrow> ('d, 'v) Agent \<Rightarrow> error option \<times> ('d, 'v) Agent" where
  "Stop now a =
     (if \<not> isRunning a then (Some ErrAgentNotRunning, a)
      else (None, a\<lparr>state := UpdateStatus now StatusStopped (state a),
                     agent_ctx := (agent_ctx a)\<lparr>ctx_err := Some ContextCanceled\<rparr>,
                     isRunning := False\<rparr>))"

definition Agent_AddTask :: "time \<Rightarrow> 'd Task \<Rightarrow> ('d, 'v) Agent \<Rightarrow> error option \<times> ('d, 'v) Agent" where
  "Agent_AddTask now task a =
     (if \<not> isRunning a then (Some ErrAgentNotRunning, a)
      else (None, a\<lparr>processor := snd (AddTask now task (processor a))\<rparr>))"

text \<open>
  One pass of a \<^verbatim>\<open>run\<close> goroutine through its \<^verbatim>\<open>select\<close>. \<open>tick\<close> says whether the
  ticker's channel holds a tick; \<open>pick\<close> is the case taken when both cases are ready
  (\<open>FirstCase\<close> is \<^verbatim>\<open><-a.ctx.Done()\<close>, \<open>SecondCase\<close> is \<^verbatim>\<open><-ticker.C\<close>); \<open>pick'\<close> is
  the same for the \<^verbatim>\<open>select\<close> inside \<^verbatim>\<open>Process\<close>. The result carries the events of the
  pass. A pass with no ready case, and a \<^verbatim>\<open>Process\<close> that waits, leave the goroutine parked.
\<close>

definition run_pass ::
  "time \<Rightarrow> bool \<Rightarrow> select_case \<Rightarrow> select_case \<Rightarrow> ('d, 'v) Agent \<Rightarrow> ('d, 'v) Agent \<times> 'd event list" where
  "run_pass now tick pick pick' a =
     (if run_loops a = 0 then (a, [])
      else if ctx_err (agent_ctx a) \<noteq> None \<and> (\<not> tick \<or> pick = FirstCase)
      then (a\<lparr>run_loops := run_loops a - 1\<rparr>, [])
      else if tick
      then (case Process now pick' (agent_ctx a) (state a) (processor a) of
              (Returned (Some err), p', st', evs) \<Rightarrow>
                (a\<lparr>processor := p', state := st'\<lparr>LastError := Some err\<rparr>\<rparr>, evs)
            | (_, p', st', evs) \<Rightarrow> (a\<lparr>processor := p', state := st'\<rparr>, evs))
      else (a, []))"

text \<open>One pass of a \<^verbatim>\<open>memoryCleanup\<close> goroutine that finds \<^verbatim>\<open>a.ctx.Done()\<close> closed and no tick.\<close>

definition cleanup_exit :: "('d, 'v) Agent \<Rightarrow> ('d, 'v) Agent" where
  "cleanup_exit a =
     (if cleanup_loops a > 0 \<and> ctx_err (agent_ctx a) \<noteq> None
      then a\<lparr>cleanup_loops := cleanup_loops a - 1\<rparr> else a)"

subsection \<open>Concrete inputs\<close>

text \<open>Values on which the theorems below are exercised.\<close>

definition ex_task :: "string \<Rightarrow> int \<Rightarrow> time \<Rightarrow> time option \<Rightarrow> unit Task" where
  "ex_task i prio created dl =
     \<lparr>ID = i, Type = ''system.health'', Priority = word_of_int prio, Data = (),
      CreatedAt = created, StartedAt = None, Deadline = dl, Attempts = 0\<rparr>"

definition ex_proc :: "(unit, unit) Processor" where
  "ex_proc = \<lparr>tasks = [], handlers = Map.empty, sem_len = 0, sem_cap = 1\<rparr>"

text \<open>Task A (priority 5) is submitted first, task B (priority 10) second.\<close>

definition ex_queue :: "(unit, unit) Processor" where
  "ex_queue =
     snd (AddTask 20 (ex_task ''B'' 10 20 None) (snd (AddTask 10 (ex_task ''A'' 5 10 None) ex_proc)))"

definition background :: Context where
  "background = \<lparr>ctx_err = None, ctx_deadline = None\<rparr>"

definition ex_handlers :: "(unit, unit) Processor" where
  "ex_handlers = RegisterHandler ''system.health'' (\<lambda>ctx st task. (None, st)) ex_proc"

definition ex_item :: "int \<Rightarrow> time \<Rightarrow> time option \<Rightarrow> unit MemoryItem" where
  "ex_item n accessed expires =
     \<lparr>Value = (), ItemCreatedAt = 0, ExpiresAt = expires, AccessCount = word_of_int n,
      LastAccess = accessed, ItemPriority = 1\<rparr>"

definition ex_store :: "go_int \<Rightarrow> (string \<times> unit MemoryItem) list \<Rightarrow> unit MemoryStore" where
  "ex_store cap d = \<lparr>data = d, maxSize = cap, persistent = False\<rparr>"

text \<open>
  Two calls of \<^verbatim>\<open>Process\<close> in flight on a Processor with one slot: the first holds the
  slot, the second waits at the \<^verbatim>\<open>select\<close>.
\<close>

definition ex_acts :: "unit action list" where
  "ex_acts = [Submit 10 (ex_task ''A'' 5 10 None), Submit 20 (ex_task ''B'' 10 20 None),
              Enter 30, Enter 31, TakeSlot 0]"

definition ex_sys :: "(unit, unit) system" where
  "ex_sys = \<lparr>proc = ex_proc\<lparr>sem_len := 1\<rparr>,
             calls = [InHandler (ex_task ''B'' 10 20 None), AtSelect (ex_task ''A'' 5 10 None)]\<rparr>"

text \<open>
  An agent as \<^verbatim>\<open>NewAgent\<close> leaves it (not running, default handlers registered), then
  started at time 1 and given one task at time 2.
\<close>

definition ex_agent0 :: "(unit, unit) Agent" where
  "ex_agent0 =
     \<lparr>agent_ctx = background,
      processor = registerDefaultHandlers \<lparr>tasks = [], handlers = Map.empty, sem_len = 0, sem_cap = 10\<rparr>,
      state = NewState 0 10000 100000, isRunning = False, startTime = zeroTime,
      run_loops = 0, cleanup_loops = 0\<rparr>"

definition ex_agent :: "(unit, unit) Agent" where
  "ex_agent = snd (Agent_AddTask 2 (ex_task ''t1'' 1 2 None) (snd (Start 1 ex_agent0)))"

subsection \<open>The invariant of the slot pool\<close>

text \<open>
  The calls inside \<^verbatim>\<open>executeTask\<close> are as many as the elements in the semaphore channel,
  and the channel never holds more than its capacity.
\<close>

definition sys_inv :: "('d, 's) system \<Rightarrow> bool" where
  "sys_inv s = (executing s = sem_len (proc s) \<and> sem_len (proc s) \<le> sem_cap (proc s))"

section \<open>Properties\<close>

subsection \<open>Sorting\<close>

lemma mset_sift: "mset (sift lt x ys) = add_mset x (mset ys)"
  by (induction ys) auto

lemma mset_foldl_sift: "mset (foldl (\<lambda>acc x. sift lt x acc) acc xs) = mset acc + mset xs"
  by (induction xs arbitrary: acc) (auto simp: mset_sift)

lemma mset_insertionSort: "mset (insertionSort lt xs) = mset xs"
  by (simp add: insertionSort_def mset_foldl_sift)

lemma set_sift: "set (sift lt x ys) = insert x (set ys)"
  by (induction ys) auto

lemma sint_eq_iff: "sint (a :: go_int) = sint b \<longleftrightarrow> a = b"
  by (auto intro: signed_word_eqI)

lemma task_less_asym: "task_less a b \<Longrightarrow> \<not> task_less b a"
  by (auto simp: task_less_def Before_def split: if_splits)

lemma task_less_negtrans: "\<not> task_less a b \<Longrightarrow> \<not> task_less b c \<Longrightarrow> \<not> task_less a c"
  by (auto simp: task_less_def Before_def sint_eq_iff split: if_splits)

lemma sorted_sift:
  "sorted_wrt (\<lambda>a b. \<not> task_less a b) ys \<Longrightarrow> sorted_wrt (\<lambda>a b. \<not> task_less a b) (sift task_less x ys)"
proof (induction ys)
  case Nil
  then show ?case by simp
next
  case (Cons y ys)
  show ?case
  proof (cases "task_less x y")
    case True
    with Cons show ?thesis
      by (auto simp: set_sift dest: task_less_asym)
  next
    case False
    with Cons show ?thesis
      by (auto dest: task_less_negtrans)
  qed
qed

lemma sorted_foldl_sift:
  "sorted_wrt (\<lambda>a b. \<not> task_less a b) acc \<Longrightarrow>
   sorted_wrt (\<lambda>a b. \<not> task_less a b) (foldl (\<lambda>acc x. sift task_less x acc) acc xs)"
  by (induction xs arbitrary: acc) (auto simp: sorted_sift)

lemma sorted_sortTasks: "sorted_wrt (\<lambda>a b. \<not> task_less b a) (sortTasks ts)"
proof -
  have "sorted_wrt (\<lambda>a b. \<not> task_less a b) (foldl (\<lambda>acc x. sift task_less x acc) [] ts)"
    by (rule sorted_foldl_sift) simp
  then show ?thesis
    by (simp add: sortTasks_def insertionSort_def sorted_wrt_rev)
qed

lemma mset_sortTasks: "mset (sortTasks ts) = mset ts"
  by (simp add: sortTasks_def mset_insertionSort)

lemma sorted_Process:
  "sorted_wrt (\<lambda>a b. \<not> task_less b a) (tasks p) \<Longrightarrow>
   sorted_wrt (\<lambda>a b. \<not> task_less b a) (tasks (fst (snd (Process now pick ctx st p))))"
  by (auto simp: Process_def Let_def split: list.splits prod.splits)

lemma reachable_sorted:
  "reachable p \<Longrightarrow> sorted_wrt (\<lambda>a b. \<not> task_less b a) (tasks p)"
proof (induction rule: reachable.induct)
  case (r_new n p)
  then show ?case by (auto simp: NewProcessor_def split: if_splits)
next
  case (r_add p now task)
  then show ?case by (simp add: AddTask_def sorted_sortTasks)
next
  case (r_reg p ty h)
  then show ?case by (simp add: RegisterHandler_def)
next
  case (r_process p now pick ctx st)
  then show ?case by (simp add: sorted_Process)
qed

lemma ex_proc_new: "NewProcessor 1 = Some ex_proc"
  by (simp add: NewProcessor_def ex_proc_def)

lemma ex_queue_tasks: "tasks ex_queue = [ex_task ''B'' 10 20 None, ex_task ''A'' 5 10 None]"
  by (simp add: ex_queue_def AddTask_def ex_proc_def sortTasks_def insertionSort_def fill_task_def
      ex_task_def task_less_def IsZero_def zeroTime_def Second_def Let_def Before_def)

lemma ex_queue_reachable: "reachable ex_queue"
  unfolding ex_queue_def by (intro r_add r_new[OF ex_proc_new])

subsection \<open>C1: the order of dequeueing\<close>

text \<open>
  Claim C1. In every state a Processor can reach by \<^verbatim>\<open>AddTask\<close>, \<^verbatim>\<open>RegisterHandler\<close> and
  \<^verbatim>\<open>Process\<close> calls, \<^verbatim>\<open>Process\<close> pops the head of the queue, and no task left in the queue
  has a higher priority than the popped one, and none of equal priority was created earlier.
\<close>

theorem dequeue_order:
  "reachable p \<Longrightarrow> tasks p = t # rest \<Longrightarrow>
   tasks (fst (snd (Process now pick ctx st p))) = rest \<and>
   (\<forall>u \<in> set rest. sint (Priority u) \<le> sint (Priority t) \<and>
        (Priority u = Priority t \<longrightarrow> CreatedAt t \<le> CreatedAt u))"
proof -
  assume r: "reachable p" and q: "tasks p = t # rest"
  have pop: "tasks (fst (snd (Process now pick ctx st p))) = rest"
    using q by (auto simp: Process_def Let_def split: prod.splits)
  have "sorted_wrt (\<lambda>a b. \<not> task_less b a) (t # rest)"
    using reachable_sorted[OF r] q by simp
  then have "\<forall>u \<in> set rest. \<not> task_less u t" by simp
  then have "\<forall>u \<in> set rest. sint (Priority u) \<le> sint (Priority t) \<and>
        (Priority u = Priority t \<longrightarrow> CreatedAt t \<le> CreatedAt u)"
    by (auto simp: task_less_def Before_def split: if_splits)
  with pop show ?thesis by simp
qed

theorem dequeue_order_witness:
  "reachable ex_queue \<and> tasks ex_queue = ex_task ''B'' 10 20 None # [ex_task ''A'' 5 10 None] \<and>
   tasks (fst (snd (Process 30 FirstCase background () ex_queue))) = [ex_task ''A'' 5 10 None] \<and>
   sint (Priority (ex_task ''A'' 5 10 None)) \<le> sint (Priority (ex_task ''B'' 10 20 None))"
  using dequeue_order[OF ex_queue_reachable, of "ex_task ''B'' 10 20 None"
      "[ex_task ''A'' 5 10 None]" 30 FirstCase background "()"]
    ex_queue_reachable ex_queue_tasks by simp

subsection \<open>C9: AddTask accepts every task\<close>

text \<open>
  Claim C9, as stated, asks for a fresh id. The id that \<^verbatim>\<open>AddTask\<close> generates is the
  text \<^verbatim>\<open>task-\<close> followed by the clock's nanosecond count, and nothing compares it with
  the ids in the queue: a queue that holds a task named \<^verbatim>\<open>task-42\<close> receives, at
  nanosecond 42, a second task of that name.
\<close>

theorem AddTask_duplicate_id:
  "ID (ex_task [] 1 43 None) = [] \<and>
   map ID (tasks (snd (AddTask 42 (ex_task [] 1 43 None)
                    (snd (AddTask 41 (ex_task ''task-42'' 1 41 None) ex_proc))))) =
     [''task-42'', ''task-42'']"
  by (simp add: AddTask_def ex_proc_def sortTasks_def insertionSort_def fill_task_def UnixNano_def
      show_int_def show_nat.simps digit_char_def ex_task_def task_less_def IsZero_def zeroTime_def
      Second_def Let_def Before_def)

text \<open>
  Claim C9, amended. For every task and every queue, \<^verbatim>\<open>AddTask\<close> returns no error; an empty
  id is replaced by \<^verbatim>\<open>task-\<close> followed by the nanosecond count of the clock (a non-empty
  text), a zero creation time by the clock's reading, and nothing else of the task changes;
  afterwards the queue holds exactly the tasks it held before and the new one.
\<close>

theorem AddTask_accepts:
  "fst (AddTask now task p) = None \<and>
   mset (tasks (snd (AddTask now task p))) = add_mset (fill_task now task) (mset (tasks p)) \<and>
   length (tasks (snd (AddTask now task p))) = Suc (length (tasks p)) \<and>
   fill_task now task =
     task\<lparr>ID := (if ID task = [] then ''task-'' @ show_int (UnixNano now) else ID task),
          CreatedAt := (if IsZero (CreatedAt task) then now else CreatedAt task)\<rparr> \<and>
   (if ID task = [] then ID (fill_task now task) \<noteq> [] else ID (fill_task now task) = ID task)"
proof -
  have m: "mset (tasks (snd (AddTask now task p))) = add_mset (fill_task now task) (mset (tasks p))"
    by (simp add: AddTask_def mset_sortTasks)
  have "size (mset (tasks (snd (AddTask now task p)))) = Suc (size (mset (tasks p)))"
    by (simp only: m size_add_mset)
  then have l: "length (tasks (snd (AddTask now task p))) = Suc (length (tasks p))"
    by simp
  have f: "fill_task now task =
     task\<lparr>ID := (if ID task = [] then ''task-'' @ show_int (UnixNano now) else ID task),
          CreatedAt := (if IsZero (CreatedAt task) then now else CreatedAt task)\<rparr>"
    by (simp add: fill_task_def Let_def)
  have i: "(if ID task = [] then ID (fill_task now task) \<noteq> [] else ID (fill_task now task) = ID task)"
    by (simp add: fill_task_def Let_def)
  from m l f i show ?thesis by (simp add: AddTask_def)
qed

subsection \<open>C4: expired tasks\<close>

text \<open>
  Claim C4. When the task at the head of the queue has a deadline before the current time,
  \<^verbatim>\<open>Process\<close> removes it from the queue and returns the error "task expired"; it takes no
  semaphore slot and invokes no handler (the list of events is empty), and the state given
  to handlers is unchanged.
\<close>

theorem Process_expired:
  "tasks p = task # rest \<Longrightarrow> Deadline task = Some d \<Longrightarrow> d < now \<Longrightarrow>
   Process now pick ctx st p =
     (Returned (Some (TaskExpired (ID task))), p\<lparr>tasks := rest\<rparr>, st, [])"
  by (simp add: Process_def After_def)

theorem Process_expired_witness:
  "tasks (snd (AddTask 10 (ex_task ''late'' 1 10 (Some 9)) ex_handlers)) =
     [ex_task ''late'' 1 10 (Some 9)] \<and>
   Process 10 FirstCase background () (snd (AddTask 10 (ex_task ''late'' 1 10 (Some 9)) ex_handlers))
     = (Returned (Some (TaskExpired ''late'')), ex_handlers, (), [])"
  using Process_expired[of "snd (AddTask 10 (ex_task ''late'' 1 10 (Some 9)) ex_handlers)"
      "ex_task ''late'' 1 10 (Some 9)" "[]" 9 10 FirstCase background "()"]
  by (simp add: AddTask_def ex_handlers_def RegisterHandler_def ex_proc_def sortTasks_def
      insertionSort_def fill_task_def ex_task_def IsZero_def zeroTime_def Second_def Let_def)

subsection \<open>C7: the timeout of the execution context\<close>




subsection \<open>Eviction\<close>

lemma keys_delete_subset:
  "fst ` set d \<subseteq> insert k (set ks) \<Longrightarrow> fst ` set (AList.delete k d) \<subseteq> set ks"
  by (auto simp: AList.delete_eq)

text \<open>
  When the list of keys covers the store, the eviction loop stops below the capacity or
  with nothing left to delete.
\<close>

lemma evict_bound:
  "fst ` set d \<subseteq> set ks \<Longrightarrow> \<not> at_capacity (evict cap ks d) cap \<or> evict cap ks d = []"
proof (induction ks arbitrary: d)
  case Nil
  then show ?case by simp
next
  case (Cons k ks)
  have "fst ` set (AList.delete k d) \<subseteq> set ks"
    using Cons.prems by (intro keys_delete_subset) simp
  from Cons.IH[OF this] show ?case by simp
qed

lemma keys_sort_by_score: "set (map fst (sort_by_score (scored_items now d))) = fst ` set d"
proof -
  have "set (sort_by_score (scored_items now d)) = set (scored_items now d)"
    unfolding sort_by_score_def by (metis mset_insertionSort set_mset_mset)
  then show ?thesis
    by (force simp: scored_items_def)
qed

lemma cleanup_bound:
  "\<not> at_capacity (data (cleanup now m)) (maxSize m) \<or> data (cleanup now m) = []"
proof -
  let ?d1 = "filter (\<lambda>(key, item). \<not> is_expired now item) (data m)"
  show ?thesis
  proof (cases "at_capacity ?d1 (maxSize m)")
    case True
    have "fst ` set ?d1 \<subseteq> set (map fst (sort_by_score (scored_items now ?d1)))"
      by (simp only: keys_sort_by_score)
    from evict_bound[OF this, of "maxSize m"] True show ?thesis
      by (simp add: cleanup_def Let_def)
  next
    case False
    then show ?thesis by (simp add: cleanup_def Let_def)
  qed
qed

lemma maxSize_cleanup: "maxSize (cleanup now m) = maxSize m"
  by (simp add: cleanup_def Let_def)

lemma length_update_le: "length (AList.update k v al) \<le> Suc (length al)"
  by (induction al) auto

text \<open>
  A Go map holds each key once. The operations keep the keys of the association list
  distinct, so its length is the \<^verbatim>\<open>len\<close> of the map.
\<close>

lemma distinct_evict:
  "distinct (map fst d) \<Longrightarrow> distinct (map fst (evict cap ks d))"
  by (induction ks arbitrary: d) (auto simp: AList.distinct_delete)

lemma distinct_cleanup:
  "distinct (map fst (data m)) \<Longrightarrow> distinct (map fst (data (cleanup now m)))"
  by (simp add: cleanup_def Let_def distinct_evict distinct_map_filter)

lemma distinct_Set:
  "distinct (map fst (data m)) \<Longrightarrow> distinct (map fst (data (snd (Set now key item m))))"
  by (simp add: Set_def Let_def distinct_cleanup AList.distinct_update)

lemma distinct_Get:
  "distinct (map fst (data m)) \<Longrightarrow> distinct (map fst (data (snd (Get now key m))))"
  by (simp add: Get_def Let_def AList.distinct_update AList.distinct_delete split: option.splits)

subsection \<open>C2: the size of a store after Set\<close>

text \<open>
  Claim C2, as stated, covers every capacity. \<^verbatim>\<open>Set\<close> always inserts: a store of
  capacity 0 (\<^verbatim>\<open>NewMemoryStore(0, false)\<close>, which no check excludes) holds one item after
  the first \<^verbatim>\<open>Set\<close>.
\<close>

theorem Set_zero_capacity_overflows:
  "\<not> int (length (data (snd (Set 0 ''k'' (ex_item 0 0 None) (NewMemoryStore 0 False))))) \<le>
     sint (maxSize (NewMemoryStore 0 False :: unit MemoryStore))"
  by (simp add: Set_def NewMemoryStore_def at_capacity_def cleanup_def Let_def sort_by_score_def
      scored_items_def insertionSort_def)

text \<open>
  Claim C2, amended. For every store whose capacity is at least 1, whatever it holds, and
  every \<^verbatim>\<open>Set\<close>: the call returns no error; when the store is at or over capacity the item
  is inserted into the store as \<^verbatim>\<open>cleanup\<close> leaves it, otherwise into the store as it is;
  and after the call the number of entries does not exceed the capacity.
\<close>

theorem Set_within_capacity:
  "1 \<le> sint (maxSize m) \<Longrightarrow>
   fst (Set now key item m) = None \<and>
   maxSize (snd (Set now key item m)) = maxSize m \<and>
   int (length (data (snd (Set now key item m)))) \<le> sint (maxSize m) \<and>
   (if at_capacity (data m) (maxSize m)
    then snd (Set now key item m) =
           (cleanup now m)\<lparr>data := AList.update key item (data (cleanup now m))\<rparr>
    else snd (Set now key item m) = m\<lparr>data := AList.update key item (data m)\<rparr>)"
proof -
  assume cap: "1 \<le> sint (maxSize m)"
  define m1 where "m1 = (if at_capacity (data m) (maxSize m) then cleanup now m else m)"
  have room: "int (length (data m1)) < sint (maxSize m)"
  proof (cases "at_capacity (data m) (maxSize m)")
    case True
    with cleanup_bound[of now m] cap show ?thesis
      by (auto simp: m1_def at_capacity_def)
  next
    case False
    then show ?thesis by (simp add: m1_def at_capacity_def)
  qed
  have "length (AList.update key item (data m1)) \<le> Suc (length (data m1))"
    by (rule length_update_le)
  with room have "int (length (AList.update key item (data m1))) \<le> sint (maxSize m)"
    by linarith
  then show ?thesis
    by (simp add: Set_def Let_def m1_def maxSize_cleanup)
qed

theorem Set_within_capacity_witness:
  "1 \<le> sint (maxSize (ex_store 2 [(''a'', ex_item 5 0 None), (''b'', ex_item 0 0 None)])) \<and>
   map fst (data (snd (Set 10 ''c'' (ex_item 0 10 None)
     (ex_store 2 [(''a'', ex_item 5 0 None), (''b'', ex_item 0 0 None)])))) = [''a'', ''c''] \<and>
   int (length (data (snd (Set 10 ''c'' (ex_item 0 10 None)
     (ex_store 2 [(''a'', ex_item 5 0 None), (''b'', ex_item 0 0 None)]))))) \<le> 2"
  using Set_within_capacity[of "ex_store 2 [(''a'', ex_item 5 0 None), (''b'', ex_item 0 0 None)]"
      10 "''c''" "ex_item 0 10 None"]
  by (simp add: ex_store_def ex_item_def Set_def at_capacity_def cleanup_def Let_def
      sort_by_score_def scored_items_def insertionSort_def is_expired_def score_def float_div_def
      Seconds_def Since_def Sub_def maxDuration_def minDuration_def Second_def AList.delete_eq)

subsection \<open>C3: the retention score at zero elapsed time\<close>

text \<open>
  Claim C3 says that a never-accessed item scores 0 and that, of key \<open>a\<close> (5 accesses) and
  key \<open>b\<close> (never accessed) in a store of capacity 2, \<^verbatim>\<open>cleanup\<close> evicts \<open>b\<close> first.
  The code divides by the elapsed seconds without looking at them. Here \<open>a\<close> was last
  accessed one second before the reading of the clock and \<open>b\<close> was stored at that very
  reading, and the map is visited in the order \<open>a\<close>, \<open>b\<close>. The score of \<open>b\<close> is
  \<open>0 / 0\<close>, NaN; no comparison with NaN holds, so the sort leaves the order as it is, and
  the loop deletes \<open>a\<close> and keeps \<open>b\<close>. All the numbers involved (5, 1 and 0) are exact in
  \<^verbatim>\<open>float64\<close>.
\<close>

theorem cleanup_zero_elapsed:
  "score 2000000000 (ex_item 5 1000000000 None) = Finite 5 \<and>
   score 2000000000 (ex_item 0 2000000000 None) = NaN \<and>
   map fst (data (cleanup 2000000000
     (ex_store 2 [(''a'', ex_item 5 1000000000 None), (''b'', ex_item 0 2000000000 None)]))) = [''b'']"
  by (simp add: cleanup_def ex_store_def ex_item_def is_expired_def at_capacity_def
      sort_by_score_def scored_items_def insertionSort_def score_def float_div_def Seconds_def
      Since_def Sub_def maxDuration_def minDuration_def Second_def AList.delete_eq)

subsection \<open>C6: Get\<close>

text \<open>
  Claim C6. \<^verbatim>\<open>Get\<close> on an absent key fails with \<^verbatim>\<open>ErrMemoryNotFound\<close> and leaves the
  store as it is; on a key whose item has expired it fails with \<^verbatim>\<open>ErrMemoryExpired\<close> and
  the key is absent afterwards; on a key whose item has not expired it returns the item's
  value, and the store then holds the item with its access count incremented (a 64-bit
  addition) and its last access set to the current time.
\<close>

theorem Get_cases:
  "(map_of (data m) key = None \<longrightarrow> Get now key m = (Inl ErrMemoryNotFound, m)) \<and>
   (\<forall>item. map_of (data m) key = Some item \<and> is_expired now item \<longrightarrow>
      fst (Get now key m) = Inl ErrMemoryExpired \<and>
      map_of (data (snd (Get now key m))) key = None) \<and>
   (\<forall>item. map_of (data m) key = Some item \<and> \<not> is_expired now item \<longrightarrow>
      fst (Get now key m) = Inr (Value item) \<and>
      map_of (data (snd (Get now key m))) key =
        Some (item\<lparr>AccessCount := AccessCount item + 1, LastAccess := now\<rparr>))"
  by (simp add: Get_def Let_def AList.update_conv' AList.delete_conv')

theorem Get_cases_witness:
  "Get 10 ''z'' (ex_store 2 [(''a'', ex_item 5 0 (Some 3))]) =
     (Inl ErrMemoryNotFound, ex_store 2 [(''a'', ex_item 5 0 (Some 3))]) \<and>
   is_expired 10 (ex_item 5 0 (Some 3)) \<and>
   fst (Get 10 ''a'' (ex_store 2 [(''a'', ex_item 5 0 (Some 3))])) = Inl ErrMemoryExpired \<and>
   map_of (data (snd (Get 10 ''a'' (ex_store 2 [(''a'', ex_item 5 0 (Some 3))])))) ''a'' = None \<and>
   fst (Get 2 ''a'' (ex_store 2 [(''a'', ex_item 5 0 (Some 3))])) = Inr () \<and>
   map_of (data (snd (Get 2 ''a'' (ex_store 2 [(''a'', ex_item 5 0 (Some 3))])))) ''a'' =
     Some (ex_item 6 2 (Some 3))"
  using Get_cases[of "ex_store 2 [(''a'', ex_item 5 0 (Some 3))]" "''z''" 10]
        Get_cases[of "ex_store 2 [(''a'', ex_item 5 0 (Some 3))]" "''a''" 10]
        Get_cases[of "ex_store 2 [(''a'', ex_item 5 0 (Some 3))]" "''a''" 2]
  by (simp add: ex_store_def ex_item_def is_expired_def After_def)

subsection \<open>C10: what Remember stores\<close>




subsection \<open>C8: the concurrency limit\<close>

lemma length_filter_update:
  "i < length xs \<Longrightarrow>
   length (filter P (xs[i := y])) + (if P (xs ! i) then 1 else 0) =
   length (filter P xs) + (if P y then 1 else 0)"
proof (induction xs arbitrary: i)
  case Nil
  then show ?case by simp
next
  case (Cons x xs)
  show ?case
  proof (cases i)
    case 0
    then show ?thesis by simp
  next
    case (Suc j)
    with Cons.prems have "j < length xs" by simp
    from Cons.IH[OF this] Suc show ?thesis by simp
  qed
qed

lemma sys_step_cap: "sys_step a s = Some s' \<Longrightarrow> sem_cap (proc s') = sem_cap (proc s)"
  by (cases a) (auto simp: AddTask_def split: list.splits if_splits call.splits)

lemma sys_step_inv: "sys_step a s = Some s' \<Longrightarrow> sys_inv s \<Longrightarrow> sys_inv s'"
proof (cases a)
  case (Submit now task)
  assume "sys_step a s = Some s'" "sys_inv s"
  with Submit show ?thesis by (auto simp: sys_inv_def executing_def AddTask_def)
next
  case (Enter now)
  assume "sys_step a s = Some s'" "sys_inv s"
  with Enter show ?thesis
    by (auto simp: sys_inv_def executing_def split: list.splits if_splits)
next
  case (TakeSlot i)
  assume st: "sys_step a s = Some s'" and inv: "sys_inv s"
  from st TakeSlot obtain task where i: "i < length (calls s)"
    and free: "sem_len (proc s) < sem_cap (proc s)"
    and c: "calls s ! i = AtSelect task"
    and s': "s' = s\<lparr>proc := (proc s)\<lparr>sem_len := sem_len (proc s) + 1\<rparr>,
                    calls := (calls s)[i := InHandler task]\<rparr>"
    by (auto split: if_splits call.splits)
  from length_filter_update[OF i, of is_executing "InHandler task"] c
  have "length (filter is_executing ((calls s)[i := InHandler task])) =
        length (filter is_executing (calls s)) + 1"
    by simp
  with inv free s' show ?thesis by (simp add: sys_inv_def executing_def)
next
  case (GiveUp i)
  assume st: "sys_step a s = Some s'" and inv: "sys_inv s"
  from st GiveUp obtain task where i: "i < length (calls s)" and c: "calls s ! i = AtSelect task"
    and s': "s' = s\<lparr>calls := (calls s)[i := Finished]\<rparr>"
    by (auto split: if_splits call.splits)
  from length_filter_update[OF i, of is_executing Finished] c
  have "length (filter is_executing ((calls s)[i := Finished])) =
        length (filter is_executing (calls s))"
    by simp
  with inv s' show ?thesis by (simp add: sys_inv_def executing_def)
next
  case (Leave i)
  assume st: "sys_step a s = Some s'" and inv: "sys_inv s"
  from st Leave obtain task where i: "i < length (calls s)" and c: "calls s ! i = InHandler task"
    and s': "s' = s\<lparr>proc := (proc s)\<lparr>sem_len := sem_len (proc s) - 1\<rparr>,
                    calls := (calls s)[i := Finished]\<rparr>"
    by (auto split: if_splits call.splits)
  from length_filter_update[OF i, of is_executing Finished] c
  have "length (filter is_executing ((calls s)[i := Finished])) + 1 =
        length (filter is_executing (calls s))"
    by simp
  with inv s' show ?thesis by (auto simp: sys_inv_def executing_def)
qed

lemma sys_run_inv:
  "sys_run acts s = Some s' \<Longrightarrow> sys_inv s \<Longrightarrow>
   sys_inv s' \<and> sem_cap (proc s') = sem_cap (proc s)"
proof (induction acts arbitrary: s)
  case Nil
  then show ?case by simp
next
  case (Cons a acts)
  from Cons.prems(1) obtain s1 where a: "sys_step a s = Some s1" and r: "sys_run acts s1 = Some s'"
    by (auto split: option.splits)
  from sys_step_inv[OF a Cons.prems(2)] have "sys_inv s1" .
  from Cons.IH[OF r this] sys_step_cap[OF a] show ?case by simp
qed

text \<open>
  Claim C8. On a Processor made by \<^verbatim>\<open>NewProcessor\<close> with limit \<open>n\<close>, after any interleaving
  of submissions and of the steps of any number of concurrent \<^verbatim>\<open>Process\<close> calls, at most
  \<open>n\<close> calls are inside \<^verbatim>\<open>executeTask\<close>; and while \<open>n\<close> are, no waiting call can take a
  slot: it stays at the \<^verbatim>\<open>select\<close> until a call inside returns its slot (or its context
  is cancelled).
\<close>

theorem at_most_N_executing:
  "NewProcessor n = Some p \<Longrightarrow> sys_run acts \<lparr>proc = p, calls = []\<rparr> = Some s \<Longrightarrow>
   executing s \<le> nat (sint n) \<and>
   (executing s = nat (sint n) \<longrightarrow> (\<forall>i. sys_step (TakeSlot i) s = None))"
proof -
  assume new: "NewProcessor n = Some p" and run: "sys_run acts \<lparr>proc = p, calls = []\<rparr> = Some s"
  from new have p: "sem_len p = 0" "sem_cap p = nat (sint n)"
    by (auto simp: NewProcessor_def split: if_splits)
  then have "sys_inv \<lparr>proc = p, calls = []\<rparr>"
    by (simp add: sys_inv_def executing_def)
  from sys_run_inv[OF run this] p have inv: "sys_inv s" and cap: "sem_cap (proc s) = nat (sint n)"
    by simp_all
  then show ?thesis
    by (auto simp: sys_inv_def)
qed

lemma ex_sys_run:
  "sys_run ex_acts \<lparr>proc = ex_proc, calls = []\<rparr> = Some ex_sys \<and> executing ex_sys = 1"
  by (simp add: ex_proc_def ex_acts_def ex_sys_def executing_def AddTask_def sortTasks_def
      insertionSort_def fill_task_def ex_task_def task_less_def IsZero_def zeroTime_def Second_def
      Let_def Before_def After_def)

theorem at_most_N_executing_witness:
  "NewProcessor 1 = Some ex_proc \<and>
   sys_run ex_acts \<lparr>proc = ex_proc, calls = []\<rparr> = Some ex_sys \<and>
   executing ex_sys = 1 \<and>
   executing ex_sys \<le> nat (sint (1 :: go_int)) \<and>
   sys_step (TakeSlot 1) ex_sys = None"
  using at_most_N_executing[of 1 ex_proc ex_acts ex_sys] ex_proc_new ex_sys_run
  by simp

subsection \<open>C5: Stop\<close>

text \<open>
  Claim C5, as stated, has both background activities ended, and no new processing, once
  \<^verbatim>\<open>Stop\<close> has returned. \<^verbatim>\<open>Stop\<close> cancels the context and returns; it waits for
  neither goroutine. On an agent started at time 1 with one task queued and stopped at
  time 5, both goroutines are still there when \<^verbatim>\<open>Stop\<close> returns, and a pass of \<^verbatim>\<open>run\<close>
  whose \<^verbatim>\<open>select\<close> finds a tick as well as the closed \<^verbatim>\<open>Done\<close> channel, and takes the
  tick, calls \<^verbatim>\<open>Process\<close>, which invokes the handler.
\<close>

theorem Stop_does_not_join:
  "isRunning ex_agent \<and> fst (Stop 5 ex_agent) = None \<and>
   run_loops (snd (Stop 5 ex_agent)) = 1 \<and> cleanup_loops (snd (Stop 5 ex_agent)) = 1 \<and>
   snd (run_pass 6 True SecondCase FirstCase (snd (Stop 5 ex_agent))) =
     [Acquire,
      Invoke \<lparr>ctx_err = Some ContextCanceled, ctx_deadline = Some (6 + 30 * Second)\<rparr>
        ((ex_task ''t1'' 1 2 None)\<lparr>StartedAt := Some 6, Attempts := 1\<rparr>),
      Release]"
  by (simp add: ex_agent_def ex_agent0_def Stop_def Start_def Agent_AddTask_def AddTask_def
      run_pass_def Process_def executeTask_def executeTask_at_def registerDefaultHandlers_def RegisterHandler_def
      handleHealthCheck_def handleReset_def sortTasks_def insertionSort_def fill_task_def
      ex_task_def IsZero_def zeroTime_def Second_def Let_def UpdateStatus_def NewState_def
      WithTimeout_def getTaskTimeout_def DefaultTaskTimeout_def background_def)

text \<open>
  Claim C5, amended. When \<^verbatim>\<open>Stop\<close> returns on a running agent, the agent's context is
  cancelled (the signal to both background activities), the status is stopped and the agent is
  no longer running; \<^verbatim>\<open>AddTask\<close> then fails with \<^verbatim>\<open>ErrAgentNotRunning\<close> and changes
  nothing. \<^verbatim>\<open>Stop\<close> itself ends no goroutine: each loop returns at its next pass that
  takes the cancellation case, which is ready from then on.
\<close>

theorem Stop_signals:
  "isRunning a \<Longrightarrow>
   fst (Stop now a) = None \<and>
   \<not> isRunning (snd (Stop now a)) \<and>
   ctx_err (agent_ctx (snd (Stop now a))) = Some ContextCanceled \<and>
   Status (state (snd (Stop now a))) = StatusStopped \<and>
   Agent_AddTask now' task (snd (Stop now a)) = (Some ErrAgentNotRunning, snd (Stop now a)) \<and>
   run_loops (snd (Stop now a)) = run_loops a \<and>
   cleanup_loops (snd (Stop now a)) = cleanup_loops a \<and>
   run_pass now' tick FirstCase pick' (snd (Stop now a)) =
     (if run_loops a = 0 then (snd (Stop now a), [])
      else ((snd (Stop now a))\<lparr>run_loops := run_loops a - 1\<rparr>, [])) \<and>
   cleanup_exit (snd (Stop now a)) =
     (if cleanup_loops a = 0 then snd (Stop now a)
      else (snd (Stop now a))\<lparr>cleanup_loops := cleanup_loops a - 1\<rparr>)"
  by (simp add: Stop_def Agent_AddTask_def UpdateStatus_def run_pass_def cleanup_exit_def)

lemma ex_agent_running: "isRunning ex_agent"
  by (simp add: ex_agent_def ex_agent0_def Start_def Agent_AddTask_def)

theorem Stop_signals_witness:
  "isRunning ex_agent \<and>
   fst (Stop 5 ex_agent) = None \<and>
   ctx_err (agent_ctx (snd (Stop 5 ex_agent))) = Some ContextCanceled \<and>
   Status (state (snd (Stop 5 ex_agent))) = StatusStopped \<and>
   Agent_AddTask 6 (ex_task ''t2'' 1 6 None) (snd (Stop 5 ex_agent)) =
     (Some ErrAgentNotRunning, snd (Stop 5 ex_agent)) \<and>
   run_loops (fst (run_pass 6 True FirstCase FirstCase (snd (Stop 5 ex_agent)))) = 0"
  using Stop_signals[OF ex_agent_running, of 5 6 "ex_task ''t2'' 1 6 None" True FirstCase]
    ex_agent_running
  by (simp add: ex_agent_def ex_agent0_def Start_def Agent_AddTask_def)

end
